theory Spec2Isabelle
  imports Complex_Main
begin

section \<open>Tabular SARSA agent (reinforcement/agent.py, class AgentQ)\<close>

text \<open>
  The theory embeds the methods \<^verbatim>\<open>q\<close>, \<^verbatim>\<open>actua\<close>, \<^verbatim>\<open>predict\<close> and \<^verbatim>\<open>train\<close> of
  \<^verbatim>\<open>AgentQ\<close>. Python floats are idealised as \<^typ>\<open>real\<close>: rounding, overflow and NaN
  are not modelled. The values the scenarios compute (0, 0.5, 1, 3, 5) are exact in
  binary floating point as well, and the statements about runs with arbitrary
  hyperparameters are limited to what does not depend on the size of the stored values.
  The environment and the two random generators are external to the file; they are
  parameters of the model.
\<close>

subsection \<open>Data\<close>

text \<open>
  Modelled from the spec: the enumeration \<^verbatim>\<open>Status\<close> of \<^verbatim>\<open>reinforcement.joc\<close> is not
  part of the source. The code names \<^verbatim>\<open>Status.WIN\<close> and \<^verbatim>\<open>Status.LOSE\<close>; the spec
  gives the third signal, IN\_PROGRESS.
\<close>

datatype Status = WIN | LOSE | IN_PROGRESS

text \<open>
  Modelled from the spec: the enumeration \<^verbatim>\<open>Action\<close> of \<^verbatim>\<open>reinforcement.joc\<close> is not
  part of the source. Its four members are the ones \<^verbatim>\<open>_action_to_symbol\<close> names. The
  functions below are polymorphic in the action type; \<open>Action\<close> is used in the scenarios.
\<close>

datatype Action = MOVE_LEFT | MOVE_RIGHT | MOVE_UP | MOVE_DOWN

text \<open>The exceptions the modelled statements can raise.\<close>

datatype error = TypeError | IndexError | ValueError | KeyError | UnboundLocalError

text \<open>A numpy array, by its nesting; \<open>flatten\<close> is \<^verbatim>\<open>ndarray.flatten()\<close> (row-major).\<close>

datatype 'e ndarray = Scalar 'e | Array "'e ndarray list"

fun flatten :: "'e ndarray \<Rightarrow> 'e list" where
  "flatten (Scalar v) = [v]"
| "flatten (Array rows) = concat (map flatten rows)"

text \<open>
  A state value as the agent receives it: a numpy array (not hashable), a tuple of
  integers, or any other hashable object, opaque to the agent.
\<close>

datatype 'k state = Ndarray "int ndarray" | Tuple "int list" | Opaque 'k

fun hashable :: "'k state \<Rightarrow> bool" where
  "hashable (Ndarray arr) = False"
| "hashable (Tuple t) = True"
| "hashable (Opaque k) = True"

text \<open>\<^verbatim>\<open>self.Q\<close>: the dictionary from (state, action) to a value.\<close>

type_synonym ('k, 'a) table = "('k state \<times> 'a) \<rightharpoonup> real"

text \<open>
  \<^verbatim>\<open>self.environment\<close>: the ordered action list, \<^verbatim>\<open>reset\<close> and \<^verbatim>\<open>_aplica\<close>. The
  environment is stateful; \<open>'w\<close> is its hidden state, passed explicitly.
\<close>

record ('k, 'a, 'w) environment =
  actions :: "'a list"
  reset :: "nat \<times> nat \<Rightarrow> 'w \<Rightarrow> 'k state \<times> 'w"
  aplica :: "'a \<Rightarrow> 'w \<Rightarrow> ('k state \<times> real \<times> Status) \<times> 'w"

text \<open>
  The two process-wide random generators: Python's \<^verbatim>\<open>random\<close> (used by
  \<^verbatim>\<open>random.choice\<close>) and numpy's (used by \<^verbatim>\<open>np.random.random\<close>). Each is a sequence of
  draws and the position of the next one.
\<close>

record rng =
  py_draws :: "nat \<Rightarrow> nat"
  py_pos :: nat
  np_draws :: "nat \<Rightarrow> real"
  np_pos :: nat

text \<open>What \<^verbatim>\<open>logging.info\<close> receives.\<close>

datatype log_entry =
  EpisodeInfo int int Status real nat nat
| EpisodesDone int

subsection \<open>Random draws\<close>

text \<open>
  \<^verbatim>\<open>random.choice(seq)\<close>: IndexError on an empty sequence, otherwise the element at an
  index below \<open>len(seq)\<close> taken from the next draw.
\<close>

definition random_choice :: "'x list \<Rightarrow> rng \<Rightarrow> error + ('x \<times> rng)" where
  "random_choice seq g =
     (if seq = [] then Inl IndexError
      else Inr (seq ! (py_draws g (py_pos g) mod length seq), g\<lparr>py_pos := Suc (py_pos g)\<rparr>))"

definition np_random :: "rng \<Rightarrow> real \<times> rng" where
  "np_random g = (np_draws g (np_pos g), g\<lparr>np_pos := Suc (np_pos g)\<rparr>)"

subsection \<open>The estimate query and greedy selection\<close>

text \<open>
  Lines 45-46, the value written at one position of \<^verbatim>\<open>q_aprox\<close>: the stored value when
  the key is in the table, otherwise the 0 that \<^verbatim>\<open>np.zeros\<close> put there.
\<close>

definition estimate :: "('k, 'a) table \<Rightarrow> 'k state \<times> 'a \<Rightarrow> real" where
  "estimate Q key = (case Q key of Some v \<Rightarrow> v | None \<Rightarrow> 0)"

text \<open>Lines 39-40: a numpy array is replaced by the tuple of its flattened elements.\<close>

definition table_key :: "'k state \<Rightarrow> 'k state" where
  "table_key state = (case state of Ndarray arr \<Rightarrow> Tuple (flatten arr) | _ \<Rightarrow> state)"

text \<open>\<^verbatim>\<open>AgentQ.q\<close> (lines 37-49): one value for each action, in the order of the action list.\<close>

definition q :: "('k, 'a, 'w) environment \<Rightarrow> ('k, 'a) table \<Rightarrow> 'k state \<Rightarrow> real list" where
  "q env Q state =
     (let state' = table_key state
      in map (\<lambda>action. estimate Q (state', action)) (actions env))"

text \<open>\<^verbatim>\<open>np.nonzero(q == np.max(q))[0]\<close>: the indices holding the maximum, ascending.\<close>

definition max_indices :: "real list \<Rightarrow> nat list" where
  "max_indices qs = filter (\<lambda>i. qs ! i = Max (set qs)) [0..<length qs]"

text \<open>
  \<^verbatim>\<open>AgentQ.predict\<close> (lines 71-86). \<^verbatim>\<open>np.max\<close> of an empty array raises ValueError.
\<close>

definition predict ::
  "('k, 'a, 'w) environment \<Rightarrow> ('k, 'a) table \<Rightarrow> 'k state \<Rightarrow> rng \<Rightarrow> error + ('a \<times> rng)" where
  "predict env Q state g =
     (let qs = q env Q state in
      if qs = [] then Inl ValueError
      else case random_choice (max_indices qs) g of
             Inl e \<Rightarrow> Inl e
           | Inr (i, g') \<Rightarrow>
               if i < length (actions env) then Inr (actions env ! i, g') else Inl IndexError)"

text \<open>
  \<^verbatim>\<open>AgentQ.actua\<close> (lines 51-66). The percept is a dictionary; the value returned is the
  result of \<^verbatim>\<open>random.choice(actions)\<close>, where \<^verbatim>\<open>actions\<close> is the index array.
\<close>

definition actua ::
  "('k, 'a, 'w) environment \<Rightarrow> ('k, 'a) table \<Rightarrow> (string \<rightharpoonup> 'k state) \<Rightarrow> rng \<Rightarrow> error + (nat \<times> rng)" where
  "actua env Q percepcio g =
     (case percepcio ''POS'' of
        None \<Rightarrow> Inl KeyError
      | Some pos \<Rightarrow>
          (let qs = q env Q pos in
           if qs = [] then Inl ValueError
           else random_choice (max_indices qs) g))"

subsection \<open>One step of an episode\<close>

text \<open>
  The epsilon-greedy draw of lines 248-251 and 269-272: one numpy draw, then either
  \<^verbatim>\<open>random.choice\<close> over the action list or \<^verbatim>\<open>predict\<close>.
\<close>

definition choose_action ::
  "('k, 'a, 'w) environment \<Rightarrow> ('k, 'a) table \<Rightarrow> real \<Rightarrow> 'k state \<Rightarrow> rng \<Rightarrow> error + ('a \<times> rng)" where
  "choose_action env Q exploration state g =
     (case np_random g of (u, g1) \<Rightarrow>
        if u < exploration then random_choice (actions env) g1 else predict env Q state g1)"

text \<open>
  Lines 254-259 and 275-280: the membership test hashes the key, which raises TypeError
  for a numpy array; an absent key is inserted with value 0.
\<close>

definition ensure :: "'k state \<Rightarrow> 'a \<Rightarrow> ('k, 'a) table \<Rightarrow> error + ('k, 'a) table" where
  "ensure state action Q =
     (if \<not> hashable state then Inl TypeError
      else if (state, action) \<notin> dom Q then Inr (Q((state, action) \<mapsto> 0)) else Inr Q)"

text \<open>\<^verbatim>\<open>self.Q[key]\<close> as an expression: KeyError when the key is absent.\<close>

definition lookup :: "('k, 'a) table \<Rightarrow> 'k state \<times> 'a \<Rightarrow> error + real" where
  "lookup Q key = (case Q key of None \<Rightarrow> Inl KeyError | Some v \<Rightarrow> Inr v)"

text \<open>Lines 283-286: the assignment to \<^verbatim>\<open>self.Q[(state, action)]\<close>.\<close>

definition update ::
  "real \<Rightarrow> real \<Rightarrow> real \<Rightarrow> 'k state \<Rightarrow> 'a \<Rightarrow> 'k state \<Rightarrow> 'a \<Rightarrow> ('k, 'a) table
     \<Rightarrow> error + ('k, 'a) table" where
  "update discount learning_rate reward state action next_state next_action Q =
     (case lookup Q (state, action) of
        Inl e \<Rightarrow> Inl e
      | Inr old \<Rightarrow>
          (case lookup Q (next_state, next_action) of
             Inl e \<Rightarrow> Inl e
           | Inr nxt \<Rightarrow>
               Inr (Q((state, action) \<mapsto>
                      old + learning_rate * (reward + discount * nxt - old)))))"

text \<open>
  The body of the \<^verbatim>\<open>while True\<close> loop up to the update (lines 264-286): it returns the
  status, the next state and action, the reward total, the table, the environment and
  the generators.
\<close>

definition td_step ::
  "('k, 'a, 'w) environment \<Rightarrow> real \<Rightarrow> real \<Rightarrow> real \<Rightarrow> 'k state \<Rightarrow> 'a \<Rightarrow> real
     \<Rightarrow> ('k, 'a) table \<Rightarrow> 'w \<Rightarrow> rng
     \<Rightarrow> error + (Status \<times> 'k state \<times> 'a \<times> real \<times> ('k, 'a) table \<times> 'w \<times> rng)" where
  "td_step env discount exploration learning_rate state action cumulative Q w g =
     (case aplica env action w of ((next_state, reward, status), w') \<Rightarrow>
        (case choose_action env Q exploration next_state g of
           Inl e \<Rightarrow> Inl e
         | Inr (next_action, g') \<Rightarrow>
             (case ensure next_state next_action Q of
                Inl e \<Rightarrow> Inl e
              | Inr Q1 \<Rightarrow>
                  (case update discount learning_rate reward state action
                          next_state next_action Q1 of
                     Inl e \<Rightarrow> Inl e
                   | Inr Q2 \<Rightarrow>
                       Inr (status, next_state, next_action, cumulative + reward,
                            Q2, w', g')))))"

text \<open>
  The \<^verbatim>\<open>while True\<close> loop (lines 261-299). It ends only when the environment reports
  WIN or LOSE, so it need not return: \<open>None\<close> is the run that never ends.
\<close>

partial_function (option) episode_loop ::
  "('k, 'a, 'w) environment \<Rightarrow> real \<Rightarrow> real \<Rightarrow> real \<Rightarrow> 'k state \<Rightarrow> 'a \<Rightarrow> real
     \<Rightarrow> ('k, 'a) table \<Rightarrow> 'w \<Rightarrow> rng
     \<Rightarrow> (error + (Status \<times> real \<times> ('k, 'a) table \<times> 'w \<times> rng)) option" where
  "episode_loop env discount exploration learning_rate state action cumulative Q w g =
     (case td_step env discount exploration learning_rate state action cumulative Q w g of
        Inl e \<Rightarrow> Some (Inl e)
      | Inr (status, next_state, next_action, cumulative', Q', w', g') \<Rightarrow>
          if status = WIN \<or> status = LOSE then Some (Inr (status, cumulative', Q', w', g'))
          else episode_loop env discount exploration learning_rate next_state next_action
                 cumulative' Q' w' g')"

subsection \<open>The starting-position sweep\<close>

text \<open>The grid of lines 225-236: 0 is free, 1 is occupied. \<^verbatim>\<open>maze[y, x]\<close> is row y, column x.\<close>

definition maze :: "nat list list" where
  "maze =
     [[0, 1, 0, 0, 0, 0, 0, 0],
      [0, 1, 0, 1, 0, 1, 0, 0],
      [0, 1, 0, 1, 1, 0, 1, 0],
      [0, 1, 0, 1, 0, 0, 0, 0],
      [0, 1, 0, 1, 0, 1, 0, 0],
      [0, 0, 0, 1, 0, 1, 1, 1],
      [0, 1, 1, 0, 0, 0, 0, 0],
      [0, 1, 0, 0, 0, 1, 0, 0]]"

text \<open>\<^verbatim>\<open>np.sqrt(maze.size) - 1\<close>, the bound both coordinates are compared with.\<close>

definition bound :: real where
  "bound = sqrt (real (length (concat maze))) - 1"

text \<open>
  Lines 311-322, and again 324-335: the same block, written twice in the source, moves
  the cursor one cell forward in row-major order and wraps after the last cell.
\<close>

definition advance :: "nat \<times> nat \<Rightarrow> nat \<times> nat" where
  "advance p =
     (case p of (x, y) \<Rightarrow>
        if real y < bound then (if real x < bound then (x + 1, y) else (0, y + 1))
        else (if real x < bound then (x + 1, y) else (0, 0)))"

text \<open>\<^verbatim>\<open>maze[y, x]\<close>: IndexError outside the grid.\<close>

definition maze_at :: "nat \<times> nat \<Rightarrow> error + nat" where
  "maze_at p =
     (case p of (x, y) \<Rightarrow>
        if y < length maze \<and> x < length (maze ! y) then Inr (maze ! y ! x) else Inl IndexError)"

text \<open>The loop of lines 323-335: skip occupied cells.\<close>

function skip_occupied :: "nat \<times> nat \<Rightarrow> error + (nat \<times> nat)" where
  "skip_occupied p =
     (case maze_at p of
        Inl e \<Rightarrow> Inl e
      | Inr c \<Rightarrow> if c = 1 then skip_occupied (advance p) else Inr p)"
  by pat_completeness auto
termination
proof (relation "measure (\<lambda>(x, y). 63 - (8 * y + x))")
  show "wf (measure (\<lambda>(x, y). 63 - (8 * y + x)))" by simp
next
  fix p :: "nat \<times> nat" and c :: nat
  assume "maze_at p = Inr c" and "c = 1"
  then obtain x y where p: "p = (x, y)" and occ: "maze_at (x, y) = Inr 1"
    by (cases p) simp
  have "sqrt (64::real) = 8"
    by (rule real_sqrt_unique) simp_all
  then have b: "bound = 7"
    by (simp add: bound_def maze_def)
  from occ have y: "y < 8"
    by (simp add: maze_at_def maze_def split: if_splits)
  then consider "y = 0" | "y = 1" | "y = 2" | "y = 3" | "y = 4" | "y = 5" | "y = 6" | "y = 7"
    by linarith
  then have x: "x < 8"
    using occ by cases (simp_all add: maze_at_def maze_def split: if_splits)
  have "\<not> (x = 7 \<and> y = 7)"
    using occ by (auto simp add: maze_at_def maze_def)
  with x y show "(advance p, p) \<in> measure (\<lambda>(x, y). 63 - (8 * y + x))"
    by (auto simp add: p advance_def b)
qed

text \<open>Lines 310-335 together: one move forward, then skip the occupied cells.\<close>

definition next_start :: "nat \<times> nat \<Rightarrow> error + (nat \<times> nat)" where
  "next_start p = skip_occupied (advance p)"

subsection \<open>The training loop\<close>

text \<open>
  The local variables of \<^verbatim>\<open>train\<close> that live across episodes, with the agent's table,
  the environment's state, the generators and the log. \<open>episode\<close> is unbound (\<open>None\<close>)
  until the \<^verbatim>\<open>for\<close> loop binds it.
\<close>

record ('k, 'a, 'w) locals =
  qtable :: "('k, 'a) table"
  world :: 'w
  gen :: rng
  logs :: "log_entry list"
  cumulative_reward :: real
  cumulative_reward_history :: "real list"
  win_history :: "Status list"
  exploration_rate :: real
  cur_x :: nat
  cur_y :: nat
  episode_var :: "int option"

text \<open>Lines 220-221.\<close>

definition min_exploration_rate :: real where
  "min_exploration_rate = 0.01"

definition decay_rate :: real where
  "decay_rate = 0.9975"

text \<open>Line 302.\<close>

definition decay :: "real \<Rightarrow> real" where
  "decay e = max min_exploration_rate (e * decay_rate)"

text \<open>
  One iteration of the \<^verbatim>\<open>for\<close> loop (lines 243-335): reset at the cursor, first action,
  the episode, the append to the history, the decay, the log line, the cursor move.
\<close>

definition run_episode ::
  "('k, 'a, 'w) environment \<Rightarrow> real \<Rightarrow> real \<Rightarrow> int \<Rightarrow> int \<Rightarrow> ('k, 'a, 'w) locals
     \<Rightarrow> (error + ('k, 'a, 'w) locals) option" where
  "run_episode env discount learning_rate episodes episode st =
     (case reset env (cur_x st, cur_y st) (world st) of (state, w0) \<Rightarrow>
        (case choose_action env (qtable st) (exploration_rate st) state (gen st) of
           Inl e \<Rightarrow> Some (Inl e)
         | Inr (action, g0) \<Rightarrow>
             (case ensure state action (qtable st) of
                Inl e \<Rightarrow> Some (Inl e)
              | Inr Q0 \<Rightarrow>
                  (case episode_loop env discount (exploration_rate st) learning_rate
                          state action (cumulative_reward st) Q0 w0 g0 of
                     None \<Rightarrow> None
                   | Some (Inl e) \<Rightarrow> Some (Inl e)
                   | Some (Inr (status, cumulative', Q', w', g')) \<Rightarrow>
                       (case next_start (cur_x st, cur_y st) of
                          Inl e \<Rightarrow> Some (Inl e)
                        | Inr (x', y') \<Rightarrow>
                            Some (Inr (st\<lparr>
                              qtable := Q', world := w', gen := g',
                              cumulative_reward := cumulative',
                              cumulative_reward_history :=
                                cumulative_reward_history st @ [cumulative'],
                              exploration_rate := decay (exploration_rate st),
                              logs := logs st @
                                [EpisodeInfo episode episodes status
                                   (decay (exploration_rate st)) (cur_x st) (cur_y st)],
                              cur_x := x', cur_y := y',
                              episode_var := Some episode\<rparr>)))))))"

text \<open>The \<^verbatim>\<open>for\<close> loop over \<^verbatim>\<open>range(1, episodes + 1)\<close>.\<close>

fun train_loop ::
  "('k, 'a, 'w) environment \<Rightarrow> real \<Rightarrow> real \<Rightarrow> int \<Rightarrow> int list \<Rightarrow> ('k, 'a, 'w) locals
     \<Rightarrow> (error + ('k, 'a, 'w) locals) option" where
  "train_loop env discount learning_rate episodes [] st = Some (Inr st)"
| "train_loop env discount learning_rate episodes (episode # rest) st =
     (case run_episode env discount learning_rate episodes episode st of
        None \<Rightarrow> None
      | Some (Inl e) \<Rightarrow> Some (Inl e)
      | Some (Inr st') \<Rightarrow> train_loop env discount learning_rate episodes rest st')"

text \<open>Lines 216-238: the locals before the first episode.\<close>

definition init_locals ::
  "real \<Rightarrow> ('k, 'a) table \<Rightarrow> 'w \<Rightarrow> rng \<Rightarrow> ('k, 'a, 'w) locals" where
  "init_locals exploration Q w g =
     \<lparr>qtable = Q, world = w, gen = g, logs = [],
      cumulative_reward = 0, cumulative_reward_history = [], win_history = [],
      exploration_rate = exploration, cur_x = 0, cur_y = 0, episode_var = None\<rparr>"

text \<open>
  \<^verbatim>\<open>AgentQ.train\<close> (lines 192-339). The result is the returned triple together with the
  final locals (the table, the environment, the generators and the log are effects of
  the call). Line 337 reads \<^verbatim>\<open>episode\<close>, which is unbound when the loop body never ran.
  The parameter \<^verbatim>\<open>stop_at_convergence\<close> is not read anywhere in the body.
\<close>

definition train ::
  "('k, 'a, 'w) environment \<Rightarrow> real \<Rightarrow> real \<Rightarrow> real \<Rightarrow> int \<Rightarrow> bool
     \<Rightarrow> ('k, 'a) table \<Rightarrow> 'w \<Rightarrow> rng
     \<Rightarrow> (error + ((real list \<times> Status list \<times> int) \<times> ('k, 'a, 'w) locals)) option" where
  "train env discount exploration learning_rate episodes stop_at_convergence Q w g =
     (case train_loop env discount learning_rate episodes [1..episodes]
             (init_locals exploration Q w g) of
        None \<Rightarrow> None
      | Some (Inl e) \<Rightarrow> Some (Inl e)
      | Some (Inr st) \<Rightarrow>
          (case episode_var st of
             None \<Rightarrow> Some (Inl UnboundLocalError)
           | Some episode \<Rightarrow>
               Some (Inr ((cumulative_reward_history st, win_history st, episode),
                          st\<lparr>logs := logs st @ [EpisodesDone episode]\<rparr>))))"

subsection \<open>Reading the log\<close>

text \<open>
  The exploration rates the episode lines of the log carry (the \<^verbatim>\<open>e:\<close> field of line
  305), in the order they were logged.
\<close>

fun logged_rates :: "log_entry list \<Rightarrow> real list" where
  "logged_rates [] = []"
| "logged_rates (EpisodeInfo episode episodes status e x y # rest) = e # logged_rates rest"
| "logged_rates (EpisodesDone episode # rest) = logged_rates rest"

subsection \<open>The rewards of an episode\<close>



subsection \<open>Concrete inputs\<close>

text \<open>
  The four actions in a fixed order, a state for each cursor position, and an
  environment whose every move wins at once with reward 1. The generators of
  \<open>fixed_rng c u\<close> return \<open>c\<close> and \<open>u\<close> at every draw.
\<close>

definition four_actions :: "Action list" where
  "four_actions = [MOVE_LEFT, MOVE_RIGHT, MOVE_UP, MOVE_DOWN]"

definition cell :: "nat \<times> nat \<Rightarrow> unit state" where
  "cell p = Tuple [int (fst p), int (snd p)]"

definition win_env :: "(unit, Action, unit) environment" where
  "win_env =
     \<lparr>actions = four_actions,
      reset = (\<lambda>p w. (cell p, w)),
      aplica = (\<lambda>a w. ((cell (7, 7), 1, WIN), w))\<rparr>"

text \<open>
  An environment whose episodes take three moves: the hidden state counts the moves
  left, a move that does not end the episode costs 1, the last one wins with reward 10.
\<close>

definition countdown_env :: "(unit, Action, nat) environment" where
  "countdown_env =
     \<lparr>actions = four_actions,
      reset = (\<lambda>p w. (cell p, 3)),
      aplica = (\<lambda>a w. if w \<le> 1 then ((cell (7, 7), 10, WIN), 0)
                         else ((cell (w, 0), - 1, IN_PROGRESS), w - 1))\<rparr>"

definition fixed_rng :: "nat \<Rightarrow> real \<Rightarrow> rng" where
  "fixed_rng c u = \<lparr>py_draws = (\<lambda>n. c), py_pos = 0, np_draws = (\<lambda>n. u), np_pos = 0\<rparr>"

text \<open>
  The locals after the first of two episodes in \<open>win_env\<close>, started from the empty
  table with exploration rate 1 and the generators \<open>fixed_rng 0 0\<close>.
\<close>

definition after_first :: "(unit, Action, unit) locals" where
  "after_first =
     \<lparr>qtable = [(cell (7, 7), MOVE_LEFT) \<mapsto> 0, (cell (0, 0), MOVE_LEFT) \<mapsto> 1/2],
      world = (), gen = fixed_rng 0 0\<lparr>py_pos := 2, np_pos := 2\<rparr>,
      logs = [EpisodeInfo 1 2 WIN (399/400) 0 0],
      cumulative_reward = 1, cumulative_reward_history = [1], win_history = [],
      exploration_rate = 399/400, cur_x = 2, cur_y = 0, episode_var = Some 1\<rparr>"

section \<open>Properties\<close>

subsection \<open>The sweep\<close>

lemma bound_eq: "bound = 7"
proof -
  have "sqrt (64::real) = 8"
    by (rule real_sqrt_unique) simp_all
  then show ?thesis
    by (simp add: bound_def maze_def)
qed

lemma advance_eq:
  "advance (x, y) =
     (if y < 7 then (if x < 7 then (x + 1, y) else (0, y + 1))
      else (if x < 7 then (x + 1, y) else (0, 0)))"
  by (simp add: advance_def bound_eq)

subsection \<open>The table, the update and the selection\<close>

lemma ensure_Inr:
  "ensure state action Q = Inr Q1 \<Longrightarrow>
     hashable state \<and> Q1 = (if (state, action) \<in> dom Q then Q else Q((state, action) \<mapsto> 0))"
  by (auto simp add: ensure_def split: if_splits)

lemma estimate_ensure:
  "ensure state action Q = Inr Q1 \<Longrightarrow> estimate Q1 key = estimate Q key"
  by (auto simp add: ensure_def estimate_def split: if_splits option.splits)

lemma ensure_present:
  "ensure state action Q = Inr Q1 \<Longrightarrow> Q1 (state, action) = Some (estimate Q (state, action))"
  by (auto simp add: ensure_def estimate_def split: if_splits option.splits)

lemma lookup_Inr: "lookup Q key = Inr v \<Longrightarrow> Q key = Some v \<and> estimate Q key = v"
  by (simp add: lookup_def estimate_def split: option.splits)

lemma update_Inr:
  assumes "update discount learning_rate reward state action next_state next_action Q = Inr Q'"
  shows "Q' = Q((state, action) \<mapsto>
           estimate Q (state, action) +
           learning_rate * (reward + discount * estimate Q (next_state, next_action)
                            - estimate Q (state, action)))"
  using assms by (auto simp add: update_def split: sum.splits dest!: lookup_Inr)

lemma td_step_Inr:
  assumes "td_step env discount exploration learning_rate state action cumulative Q w g =
             Inr (status, next_state, next_action, cumulative', Q', w', g')"
  shows "\<exists>reward Q1.
           aplica env action w = ((next_state, reward, status), w') \<and>
           choose_action env Q exploration next_state g = Inr (next_action, g') \<and>
           ensure next_state next_action Q = Inr Q1 \<and>
           update discount learning_rate reward state action next_state next_action Q1 = Inr Q' \<and>
           cumulative' = cumulative + reward"
  using assms by (auto simp add: td_step_def split: prod.splits sum.splits)


lemma length_q: "length (q env Q state) = length (actions env)"
  by (simp add: q_def Let_def)

lemma max_indices_sound:
  "i \<in> set (max_indices qs) \<Longrightarrow> i < length qs \<and> qs ! i = Max (set qs)"
  by (auto simp add: max_indices_def)

lemma max_indices_nonempty:
  assumes "qs \<noteq> []"
  shows "max_indices qs \<noteq> []"
proof -
  from assms have "Max (set qs) \<in> set qs"
    by (intro Max_in) simp_all
  then obtain i where "i < length qs" "qs ! i = Max (set qs)"
    by (auto simp add: in_set_conv_nth)
  then have "i \<in> set (max_indices qs)"
    by (simp add: max_indices_def)
  then show ?thesis by auto
qed

lemma random_choice_Inr:
  "random_choice seq g = Inr (v, g') \<Longrightarrow> v \<in> set seq \<and> g' = g\<lparr>py_pos := Suc (py_pos g)\<rparr>"
  by (auto simp add: random_choice_def split: if_splits)

lemma random_choice_total:
  "seq \<noteq> [] \<Longrightarrow> \<exists>v. random_choice seq g = Inr (v, g\<lparr>py_pos := Suc (py_pos g)\<rparr>)"
  by (simp add: random_choice_def)

lemma predict_Inr:
  assumes "predict env Q state g = Inr (a, g')"
  shows "\<exists>i. i \<in> set (max_indices (q env Q state)) \<and> i < length (actions env) \<and>
             a = actions env ! i \<and> random_choice (max_indices (q env Q state)) g = Inr (i, g')"
  using assms
  by (auto simp add: predict_def Let_def split: if_splits sum.splits dest: random_choice_Inr)

lemma predict_total:
  assumes "actions env \<noteq> []"
  shows "\<exists>a g'. predict env Q state g = Inr (a, g')"
proof -
  let ?qs = "q env Q state"
  from assms have ne: "?qs \<noteq> []"
    using length_q [of env Q state] by auto
  from random_choice_total [OF max_indices_nonempty [OF ne]]
  obtain i where rc: "random_choice (max_indices ?qs) g = Inr (i, g\<lparr>py_pos := Suc (py_pos g)\<rparr>)"
    by blast
  from random_choice_Inr [OF rc] max_indices_sound have "i < length ?qs" by blast
  then have "i < length (actions env)" by (simp add: length_q)
  with rc ne show ?thesis
    by (simp add: predict_def Let_def)
qed

lemma choose_action_total:
  assumes "actions env \<noteq> []"
  shows "\<exists>a g'. choose_action env Q exploration state g = Inr (a, g')"
proof (cases "np_draws g (np_pos g) < exploration")
  case True
  with random_choice_total [OF assms, of "g\<lparr>np_pos := Suc (np_pos g)\<rparr>"] show ?thesis
    by (auto simp add: choose_action_def np_random_def)
next
  case False
  with predict_total [OF assms, of Q state "g\<lparr>np_pos := Suc (np_pos g)\<rparr>"] show ?thesis
    by (auto simp add: choose_action_def np_random_def)
qed

lemma choose_action_Inr:
  assumes "choose_action env Q exploration state g = Inr (a, g')"
  shows "a \<in> set (actions env)"
proof (cases "np_draws g (np_pos g) < exploration")
  case True
  with assms show ?thesis
    by (auto simp add: choose_action_def np_random_def dest: random_choice_Inr)
next
  case False
  with assms have "predict env Q state (g\<lparr>np_pos := Suc (np_pos g)\<rparr>) = Inr (a, g')"
    by (simp add: choose_action_def np_random_def)
  from predict_Inr [OF this] show ?thesis by auto
qed

subsection \<open>The cursor stays in the grid\<close>

lemma advance_in_grid:
  assumes "x < 8" "y < 8"
  shows "fst (advance (x, y)) < 8 \<and> snd (advance (x, y)) < 8"
  using assms by (simp add: advance_eq)

lemma maze_at_in_grid:
  assumes "x < 8" "y < 8"
  shows "\<exists>c. maze_at (x, y) = Inr c"
proof -
  from assms(2) consider "y = 0" | "y = 1" | "y = 2" | "y = 3" | "y = 4" | "y = 5" | "y = 6" | "y = 7"
    by linarith
  then show ?thesis
    using assms(1) by cases (simp_all add: maze_at_def maze_def)
qed

lemma skip_occupied_in_grid:
  "fst p < 8 \<Longrightarrow> snd p < 8 \<Longrightarrow>
     \<exists>x' y'. skip_occupied p = Inr (x', y') \<and> x' < 8 \<and> y' < 8"
proof (induction p rule: skip_occupied.induct)
  case (1 p)
  obtain x y where p: "p = (x, y)" by (cases p)
  with "1.prems" have xy: "x < 8" "y < 8" by simp_all
  from maze_at_in_grid [OF xy] obtain c where c: "maze_at p = Inr c"
    by (auto simp add: p)
  show ?case
  proof (cases "c = 1")
    case True
    have "fst (advance p) < 8" "snd (advance p) < 8"
      using advance_in_grid [OF xy] by (simp_all add: p)
    from "1.IH" [OF c True this] show ?thesis
      using c True by (subst skip_occupied.simps) simp
  next
    case False
    with c xy show ?thesis
      by (subst skip_occupied.simps) (simp add: p)
  qed
qed

lemma next_start_in_grid:
  assumes "x < 8" "y < 8"
  shows "\<exists>x' y'. next_start (x, y) = Inr (x', y') \<and> x' < 8 \<and> y' < 8"
  unfolding next_start_def
  using advance_in_grid [OF assms] by (intro skip_occupied_in_grid) simp_all

lemma next_start_origin: "next_start (0, 0) = Inr (2, 0)"
  by (simp add: next_start_def advance_eq skip_occupied.simps [of "(Suc 0, 0)"]
      skip_occupied.simps [of "(2, 0)"] maze_at_def maze_def)

subsection \<open>Steps of the episode loop\<close>

lemma td_step_table:
  assumes "td_step env discount exploration learning_rate state action cumulative Q w g =
             Inr (status, next_state, next_action, cumulative', Q', w', g')"
  shows "Q' = (if (next_state, next_action) \<in> dom Q then Q
               else Q((next_state, next_action) \<mapsto> 0))
              ((state, action) \<mapsto>
                 estimate Q (state, action) +
                 learning_rate * (fst (snd (fst (aplica env action w))) +
                                  discount * estimate Q (next_state, next_action)
                                  - estimate Q (state, action)))"
proof -
  from td_step_Inr [OF assms] obtain reward Q1 where
    ap: "aplica env action w = ((next_state, reward, status), w')" and
    en: "ensure next_state next_action Q = Inr Q1" and
    up: "update discount learning_rate reward state action next_state next_action Q1 = Inr Q'"
    by blast
  from update_Inr [OF up] estimate_ensure [OF en] ensure_Inr [OF en] ap
  show ?thesis by simp
qed

lemma episode_loop_terminal:
  assumes "td_step env discount exploration learning_rate state action cumulative Q w g =
             Inr (status, next_state, next_action, cumulative', Q', w', g')"
    and "status = WIN \<or> status = LOSE"
  shows "episode_loop env discount exploration learning_rate state action cumulative Q w g =
           Some (Inr (status, cumulative', Q', w', g'))"
  using assms by (subst episode_loop.simps) simp

lemma episode_loop_continue:
  assumes "td_step env discount exploration learning_rate state action cumulative Q w g =
             Inr (status, next_state, next_action, cumulative', Q', w', g')"
    and "status = IN_PROGRESS"
  shows "episode_loop env discount exploration learning_rate state action cumulative Q w g =
           episode_loop env discount exploration learning_rate next_state next_action
             cumulative' Q' w' g'"
  using assms by (subst episode_loop.simps) simp

lemma episode_loop_error:
  assumes "td_step env discount exploration learning_rate state action cumulative Q w g = Inl e"
  shows "episode_loop env discount exploration learning_rate state action cumulative Q w g =
           Some (Inl e)"
  using assms by (subst episode_loop.simps) simp

lemma td_step_total:
  assumes "actions env \<noteq> []"
    and "Q (state, action) \<noteq> None"
    and "hashable (fst (fst (aplica env action w)))"
  shows "\<exists>r. td_step env discount exploration learning_rate state action cumulative Q w g = Inr r"
proof -
  obtain next_state reward status w' where
    ap: "aplica env action w = ((next_state, reward, status), w')"
    by (metis prod.exhaust)
  from choose_action_total [OF assms(1)] obtain next_action g' where
    ch: "choose_action env Q exploration next_state g = Inr (next_action, g')"
    by blast
  from assms(3) ap have h: "hashable next_state" by simp
  then obtain Q1 where en: "ensure next_state next_action Q = Inr Q1"
    by (cases "(next_state, next_action) \<in> dom Q") (simp_all add: ensure_def)
  from ensure_Inr [OF en] assms(2) have "Q1 (state, action) \<noteq> None" 
    by (auto split: if_splits)
  moreover from ensure_present [OF en] have "Q1 (next_state, next_action) \<noteq> None" by simp
  ultimately obtain Q2 where
    "update discount learning_rate reward state action next_state next_action Q1 = Inr Q2"
    by (auto simp add: update_def lookup_def split: option.splits)
  with ap ch en show ?thesis
    by (simp add: td_step_def)
qed

subsection \<open>A one-step winning episode\<close>

lemma one_step_win:
  assumes r: "reset env (0, 0) w = (s0, w0)"
    and h0: "hashable s0"
    and c0: "choose_action env Map.empty e s0 g = Inr (a0, g0)"
    and ap: "aplica env a0 w0 = ((s1, 1, WIN), w1)"
    and h1: "hashable s1"
  shows "\<exists>ret st. train env (9/10) e (1/2) 1 stop Map.empty w g = Some (Inr (ret, st)) \<and>
           estimate (qtable st) (s0, a0) = 1/2"
proof -
  let ?Q0 = "[(s0, a0) \<mapsto> (0::real)]"
  have en0: "ensure s0 a0 Map.empty = Inr ?Q0"
    using h0 by (simp add: ensure_def)
  have ne: "actions env \<noteq> []"
    using choose_action_Inr [OF c0] by auto
  have "\<exists>r. td_step env (9/10) e (1/2) s0 a0 0 ?Q0 w0 g0 = Inr r"
    using ne h1 ap by (intro td_step_total) simp_all
  then obtain status next_state next_action c' Q' w' g' where
    td: "td_step env (9/10) e (1/2) s0 a0 0 ?Q0 w0 g0 =
           Inr (status, next_state, next_action, c', Q', w', g')"
    by (metis prod.exhaust)
  from td_step_Inr [OF td] ap have st: "status = WIN" by auto
  have z: "estimate ?Q0 key = 0" for key
    by (simp add: estimate_def)
  from td_step_table [OF td] ap have "Q' (s0, a0) = Some (1/2)"
    by (simp add: z)
  then have est: "estimate Q' (s0, a0) = 1/2"
    by (simp add: estimate_def)
  have lp: "episode_loop env (9/10) e (1/2) s0 a0 0 ?Q0 w0 g0 = Some (Inr (status, c', Q', w', g'))"
    using td st by (intro episode_loop_terminal) simp_all
  show ?thesis
    using r c0 en0 lp est
    by (simp add: train_def init_locals_def run_episode_def next_start_origin)
qed

subsection \<open>The update rule\<close>

lemma max_indices_zeros: "max_indices [0, 0, 0, 0] = [0, 1, 2, 3]"
  by (simp add: max_indices_def upt_rec)

lemma q_win_env_empty: "q win_env Map.empty (cell p) = [0, 0, 0, 0]"
  by (simp add: q_def table_key_def win_env_def four_actions_def cell_def estimate_def)

lemma choose_win_env:
  "choose_action win_env Map.empty (1/2) (cell p) (fixed_rng 0 (1/2)) =
     Inr (MOVE_LEFT, fixed_rng 0 (1/2)\<lparr>py_pos := 1, np_pos := 1\<rparr>)"
  by (simp add: choose_action_def np_random_def predict_def q_win_env_empty max_indices_zeros
      random_choice_def fixed_rng_def) (simp add: win_env_def four_actions_def)


lemma td_step_win_env:
  "td_step win_env (9/10) (1/2) (1/2) (cell (0, 0)) MOVE_LEFT 0
     [(cell (0, 0), MOVE_LEFT) \<mapsto> 0] () (fixed_rng 0 (1/2)) =
   Inr (WIN, cell (7, 7), MOVE_LEFT, 1,
        [(cell (0, 0), MOVE_LEFT) \<mapsto> 0, (cell (7, 7), MOVE_LEFT) \<mapsto> 0,
         (cell (0, 0), MOVE_LEFT) \<mapsto> 1/2],
        (), fixed_rng 0 (1/2)\<lparr>py_pos := 1, np_pos := 1\<rparr>)"
proof -
  have qs: "q win_env [(cell (0, 0), MOVE_LEFT) \<mapsto> 0] (cell (7, 7)) = [0, 0, 0, 0]"
    by (simp add: q_def table_key_def win_env_def four_actions_def cell_def estimate_def)
  have ch: "choose_action win_env [(cell (0, 0), MOVE_LEFT) \<mapsto> 0] (1/2) (cell (7, 7))
              (fixed_rng 0 (1/2)) =
            Inr (MOVE_LEFT, fixed_rng 0 (1/2)\<lparr>py_pos := 1, np_pos := 1\<rparr>)"
    by (simp add: choose_action_def np_random_def predict_def qs max_indices_zeros
        random_choice_def fixed_rng_def) (simp add: win_env_def four_actions_def)
  have ap: "aplica win_env MOVE_LEFT () = ((cell (7, 7), 1, WIN), ())"
    by (simp add: win_env_def)
  show ?thesis
    by (simp add: td_step_def ap ch) (simp add: ensure_def update_def lookup_def cell_def)
qed

text \<open>
  C1. The table update of a training step stores, at (state, action), the old value plus
  the learning rate times (reward + discount * estimate(next state, next action) - old
  value), where the reward is the one the environment returned for the step. And a run
  of one episode from the empty table whose first move wins with reward 1, with discount
  0.9 and learning rate 0.5, returns and leaves the estimate 0.5 at the start state and
  the first action chosen, whatever the exploration rate and the random draws.
\<close>

theorem sarsa_update_rule:
  "(td_step env discount exploration learning_rate state action cumulative Q w g =
      Inr (status, next_state, next_action, cumulative', Q', w', g') \<longrightarrow>
    Q' (state, action) =
      Some (estimate Q (state, action) +
            learning_rate * (fst (snd (fst (aplica env action w))) +
                             discount * estimate Q (next_state, next_action)
                             - estimate Q (state, action)))) \<and>
   (reset env (0, 0) w0 = (s0, w1) \<and> hashable s0 \<and>
    choose_action env Map.empty e s0 g0 = Inr (a0, g1) \<and>
    aplica env a0 w1 = ((s1, 1, WIN), w2) \<and> hashable s1 \<longrightarrow>
    (\<exists>ret st. train env (9/10) e (1/2) 1 stop Map.empty w0 g0 = Some (Inr (ret, st)) \<and>
       estimate (qtable st) (s0, a0) = 1/2))"
proof (intro conjI impI)
  assume "td_step env discount exploration learning_rate state action cumulative Q w g =
            Inr (status, next_state, next_action, cumulative', Q', w', g')"
  from td_step_table [OF this]
  show "Q' (state, action) =
      Some (estimate Q (state, action) +
            learning_rate * (fst (snd (fst (aplica env action w))) +
                             discount * estimate Q (next_state, next_action)
                             - estimate Q (state, action)))"
    by simp
next
  assume "reset env (0, 0) w0 = (s0, w1) \<and> hashable s0 \<and>
    choose_action env Map.empty e s0 g0 = Inr (a0, g1) \<and>
    aplica env a0 w1 = ((s1, 1, WIN), w2) \<and> hashable s1"
  then show "\<exists>ret st. train env (9/10) e (1/2) 1 stop Map.empty w0 g0 = Some (Inr (ret, st)) \<and>
       estimate (qtable st) (s0, a0) = 1/2"
    using one_step_win [of env w0 s0 w1 e g0 a0 g1 s1 w2 stop] by blast
qed

theorem sarsa_update_rule_witness:
  "td_step win_env (9/10) (1/2) (1/2) (cell (0, 0)) MOVE_LEFT 0
     [(cell (0, 0), MOVE_LEFT) \<mapsto> 0] () (fixed_rng 0 (1/2)) =
   Inr (WIN, cell (7, 7), MOVE_LEFT, 1,
        [(cell (0, 0), MOVE_LEFT) \<mapsto> 0, (cell (7, 7), MOVE_LEFT) \<mapsto> 0,
         (cell (0, 0), MOVE_LEFT) \<mapsto> 1/2],
        (), fixed_rng 0 (1/2)\<lparr>py_pos := 1, np_pos := 1\<rparr>) \<and>
   [(cell (0, 0), MOVE_LEFT) \<mapsto> 0, (cell (7, 7), MOVE_LEFT) \<mapsto> 0,
    (cell (0, 0), MOVE_LEFT) \<mapsto> (1/2::real)] (cell (0, 0), MOVE_LEFT) = Some (1/2) \<and>
   reset win_env (0, 0) () = (cell (0, 0), ()) \<and> hashable (cell (0, 0) :: unit state) \<and>
   choose_action win_env Map.empty (1/2) (cell (0, 0)) (fixed_rng 0 (1/2)) =
     Inr (MOVE_LEFT, fixed_rng 0 (1/2)\<lparr>py_pos := 1, np_pos := 1\<rparr>) \<and>
   aplica win_env MOVE_LEFT () = ((cell (7, 7), 1, WIN), ()) \<and>
   hashable (cell (7, 7) :: unit state) \<and>
   (\<exists>ret st. train win_env (9/10) (1/2) (1/2) 1 False Map.empty () (fixed_rng 0 (1/2)) =
        Some (Inr (ret, st)) \<and>
      estimate (qtable st) (cell (0, 0), MOVE_LEFT) = 1/2)"
proof -
  have r: "reset win_env (0, 0) () = (cell (0, 0), ())"
    and ap: "aplica win_env MOVE_LEFT () = ((cell (7, 7), 1, WIN), ())"
    by (simp_all add: win_env_def)
  have h: "hashable (cell p :: unit state)" for p
    by (simp add: cell_def)
  note inst = sarsa_update_rule [of win_env "9/10" "1/2" "1/2" "cell (0, 0)" MOVE_LEFT 0
      "[(cell (0, 0), MOVE_LEFT) \<mapsto> 0]" "()" "fixed_rng 0 (1/2)"
      WIN "cell (7, 7)" MOVE_LEFT 1
      "[(cell (0, 0), MOVE_LEFT) \<mapsto> 0, (cell (7, 7), MOVE_LEFT) \<mapsto> 0,
        (cell (0, 0), MOVE_LEFT) \<mapsto> 1/2]"
      "()" "fixed_rng 0 (1/2)\<lparr>py_pos := 1, np_pos := 1\<rparr>"
      "()" "cell (0, 0)" "()" "1/2" "fixed_rng 0 (1/2)" MOVE_LEFT
      "fixed_rng 0 (1/2)\<lparr>py_pos := 1, np_pos := 1\<rparr>" "cell (7, 7)" "()" False]
  from inst td_step_win_env r ap h choose_win_env [of "(0, 0)"]
  show ?thesis by simp
qed

subsection \<open>Greedy selection\<close>

lemma q_nth:
  "i < length (actions env) \<Longrightarrow>
     q env Q state ! i = estimate Q (table_key state, actions env ! i)"
  by (simp add: q_def Let_def)

lemma set_q:
  "set (q env Q state) = (\<lambda>b. estimate Q (table_key state, b)) ` set (actions env)"
  by (simp add: q_def Let_def)

lemma predict_is_max:
  assumes "predict env Q state g = Inr (a, g')"
  shows "a \<in> set (actions env) \<and>
         estimate Q (table_key state, a) = Max (set (q env Q state)) \<and>
         (\<forall>b \<in> set (actions env).
            estimate Q (table_key state, b) \<le> estimate Q (table_key state, a))"
proof -
  from predict_Inr [OF assms] obtain i where
    i: "i \<in> set (max_indices (q env Q state))" "i < length (actions env)" "a = actions env ! i"
    by blast
  from max_indices_sound [OF i(1)] q_nth [OF i(2)] i(3)
  have mx: "estimate Q (table_key state, a) = Max (set (q env Q state))"
    by simp
  have "estimate Q (table_key state, b) \<le> Max (set (q env Q state))"
    if "b \<in> set (actions env)" for b
    using that by (intro Max_ge) (simp_all add: set_q)
  with mx i show ?thesis by simp
qed

lemma predict_reaches:
  assumes "a \<in> set (actions env)"
    and "\<forall>b \<in> set (actions env).
           estimate Q (table_key state, b) \<le> estimate Q (table_key state, a)"
  shows "\<exists>g g'. predict env Q state g = Inr (a, g')"
proof -
  let ?qs = "q env Q state"
  from assms(1) obtain i where i: "i < length (actions env)" "actions env ! i = a"
    by (auto simp add: in_set_conv_nth)
  have ne: "?qs \<noteq> []"
    using i(1) length_q [of env Q state] by auto
  have "Max (set ?qs) = estimate Q (table_key state, a)"
  proof (rule Max_eqI)
    show "finite (set ?qs)" by simp
    show "y \<le> estimate Q (table_key state, a)" if "y \<in> set ?qs" for y
      using that assms(2) by (auto simp add: set_q)
    show "estimate Q (table_key state, a) \<in> set ?qs"
      using assms(1) by (auto simp add: set_q)
  qed
  with i have "i \<in> set (max_indices ?qs)"
    by (simp add: max_indices_def length_q q_nth)
  then obtain j where j: "j < length (max_indices ?qs)" "max_indices ?qs ! j = i"
    by (auto simp add: in_set_conv_nth)
  define g where "g = \<lparr>py_draws = (\<lambda>n. j), py_pos = 0, np_draws = (\<lambda>n. 0), np_pos = 0\<rparr>"
  have "random_choice (max_indices ?qs) g = Inr (i, g\<lparr>py_pos := Suc (py_pos g)\<rparr>)"
    using j by (auto simp add: random_choice_def g_def)
  with ne i have "predict env Q state g = Inr (a, g\<lparr>py_pos := Suc (py_pos g)\<rparr>)"
    by (simp add: predict_def Let_def)
  then show ?thesis by blast
qed

lemma predict_unique:
  fixes Q :: "('k, Action) table"
  assumes Q: "Q = [(s0, MOVE_UP) \<mapsto> 0, (s0, MOVE_DOWN) \<mapsto> 5]"
    and h: "hashable s0"
    and d: "MOVE_DOWN \<in> set (actions env)"
  shows "\<exists>g'. predict env Q s0 g = Inr (MOVE_DOWN, g')"
proof -
  from d have "actions env \<noteq> []" by auto
  from predict_total [OF this] obtain a g' where p: "predict env Q s0 g = Inr (a, g')"
    by blast
  from h have k: "table_key s0 = s0"
    by (cases s0) (simp_all add: table_key_def)
  from predict_is_max [OF p] d
  have "estimate Q (s0, MOVE_DOWN) \<le> estimate Q (s0, a)"
    unfolding k by blast
  then have "a = MOVE_DOWN"
    by (cases a) (simp_all add: Q estimate_def)
  with p show ?thesis by blast
qed

lemma predict_tie:
  fixes Q :: "('k, Action) table"
  assumes Q: "Q = [(s0, MOVE_UP) \<mapsto> 3, (s0, MOVE_DOWN) \<mapsto> 3]"
    and h: "hashable s0"
    and u: "MOVE_UP \<in> set (actions env)"
    and d: "MOVE_DOWN \<in> set (actions env)"
  shows "(\<exists>a g'. predict env Q s0 g = Inr (a, g') \<and> (a = MOVE_UP \<or> a = MOVE_DOWN)) \<and>
         (\<exists>g1 g'. predict env Q s0 g1 = Inr (MOVE_UP, g')) \<and>
         (\<exists>g2 g'. predict env Q s0 g2 = Inr (MOVE_DOWN, g'))"
proof -
  from d have "actions env \<noteq> []" by auto
  from predict_total [OF this] obtain a g' where p: "predict env Q s0 g = Inr (a, g')"
    by blast
  from h have k: "table_key s0 = s0"
    by (cases s0) (simp_all add: table_key_def)
  from predict_is_max [OF p] d
  have "estimate Q (s0, MOVE_DOWN) \<le> estimate Q (s0, a)"
    unfolding k by blast
  then have "a = MOVE_UP \<or> a = MOVE_DOWN"
    by (cases a) (simp_all add: Q estimate_def)
  with p have one: "\<exists>a g'. predict env Q s0 g = Inr (a, g') \<and> (a = MOVE_UP \<or> a = MOVE_DOWN)"
    by blast
  have le: "estimate Q (s0, b) \<le> 3" for b
    by (cases b) (simp_all add: Q estimate_def)
  have "\<forall>b \<in> set (actions env). estimate Q (table_key s0, b) \<le> estimate Q (table_key s0, MOVE_UP)"
    using le by (simp add: k) (simp add: Q estimate_def)
  from predict_reaches [OF u this] have two: "\<exists>g1 g'. predict env Q s0 g1 = Inr (MOVE_UP, g')" .
  have "\<forall>b \<in> set (actions env). estimate Q (table_key s0, b) \<le> estimate Q (table_key s0, MOVE_DOWN)"
    using le by (simp add: k) (simp add: Q estimate_def)
  from predict_reaches [OF d this] have "\<exists>g2 g'. predict env Q s0 g2 = Inr (MOVE_DOWN, g')" .
  with one two show ?thesis by blast
qed

subsection \<open>Greedy selection returns maximizers\<close>

text \<open>
  C2. Whenever \<open>predict\<close> returns an action, it is one of the environment's actions whose
  estimate at the state is the maximum of \<open>q\<close> at that state: no action of the
  environment has a strictly greater estimate. With an action list that is not empty
  it always returns. With only UP stored as 0 and DOWN as 5, every draw returns DOWN.
  With only UP and DOWN stored, both as 3, every draw returns UP or DOWN, some draw
  returns UP and some draw returns DOWN (\<^verbatim>\<open>random.choice\<close> can return each of its
  candidates).
\<close>

theorem greedy_returns_maximizers:
  fixes envB envC :: "('k, Action, 'w) environment"
  shows
  "(predict env Q state g = Inr (a, g') \<longrightarrow>
      a \<in> set (actions env) \<and>
      estimate Q (table_key state, a) = Max (set (q env Q state)) \<and>
      (\<forall>b \<in> set (actions env).
         estimate Q (table_key state, b) \<le> estimate Q (table_key state, a))) \<and>
   (actions env \<noteq> [] \<longrightarrow> (\<exists>a g'. predict env Q state g = Inr (a, g'))) \<and>
   (hashable s0 \<and> MOVE_DOWN \<in> set (actions envB) \<longrightarrow>
      (\<exists>g'. predict envB [(s0, MOVE_UP) \<mapsto> 0, (s0, MOVE_DOWN) \<mapsto> 5] s0 gB =
              Inr (MOVE_DOWN, g'))) \<and>
   (hashable s0 \<and> MOVE_UP \<in> set (actions envC) \<and> MOVE_DOWN \<in> set (actions envC) \<longrightarrow>
      (\<exists>a g'. predict envC [(s0, MOVE_UP) \<mapsto> 3, (s0, MOVE_DOWN) \<mapsto> 3] s0 gC = Inr (a, g') \<and>
               (a = MOVE_UP \<or> a = MOVE_DOWN)) \<and>
      (\<exists>g1 g'. predict envC [(s0, MOVE_UP) \<mapsto> 3, (s0, MOVE_DOWN) \<mapsto> 3] s0 g1 =
                 Inr (MOVE_UP, g')) \<and>
      (\<exists>g2 g'. predict envC [(s0, MOVE_UP) \<mapsto> 3, (s0, MOVE_DOWN) \<mapsto> 3] s0 g2 =
                 Inr (MOVE_DOWN, g')))"
proof (intro conjI impI)
  assume "predict env Q state g = Inr (a, g')"
  from predict_is_max [OF this]
  show "a \<in> set (actions env)"
    and "estimate Q (table_key state, a) = Max (set (q env Q state))"
    and "\<forall>b \<in> set (actions env).
           estimate Q (table_key state, b) \<le> estimate Q (table_key state, a)"
    by blast+
next
  assume "actions env \<noteq> []"
  then show "\<exists>a g'. predict env Q state g = Inr (a, g')"
    by (rule predict_total)
next
  assume "hashable s0 \<and> MOVE_DOWN \<in> set (actions envB)"
  then show "\<exists>g'. predict envB [(s0, MOVE_UP) \<mapsto> 0, (s0, MOVE_DOWN) \<mapsto> 5] s0 gB =
               Inr (MOVE_DOWN, g')"
    using predict_unique [OF refl, of s0 envB gB] by simp
next
  assume a: "hashable s0 \<and> MOVE_UP \<in> set (actions envC) \<and> MOVE_DOWN \<in> set (actions envC)"
  then have t: "(\<exists>a g'. predict envC [(s0, MOVE_UP) \<mapsto> 3, (s0, MOVE_DOWN) \<mapsto> 3] s0 gC = Inr (a, g') \<and>
               (a = MOVE_UP \<or> a = MOVE_DOWN)) \<and>
      (\<exists>g1 g'. predict envC [(s0, MOVE_UP) \<mapsto> 3, (s0, MOVE_DOWN) \<mapsto> 3] s0 g1 =
                 Inr (MOVE_UP, g')) \<and>
      (\<exists>g2 g'. predict envC [(s0, MOVE_UP) \<mapsto> 3, (s0, MOVE_DOWN) \<mapsto> 3] s0 g2 =
                 Inr (MOVE_DOWN, g'))"
    using predict_tie [OF refl, of s0 envC gC] by simp
  from t show "\<exists>a g'. predict envC [(s0, MOVE_UP) \<mapsto> 3, (s0, MOVE_DOWN) \<mapsto> 3] s0 gC = Inr (a, g') \<and>
               (a = MOVE_UP \<or> a = MOVE_DOWN)" by simp
  from t show "\<exists>g1 g'. predict envC [(s0, MOVE_UP) \<mapsto> 3, (s0, MOVE_DOWN) \<mapsto> 3] s0 g1 =
                 Inr (MOVE_UP, g')" by simp
  from t show "\<exists>g2 g'. predict envC [(s0, MOVE_UP) \<mapsto> 3, (s0, MOVE_DOWN) \<mapsto> 3] s0 g2 =
                 Inr (MOVE_DOWN, g')" by simp
qed

lemma predict_win_env_down:
  "predict win_env [(cell (0, 0), MOVE_UP) \<mapsto> 0, (cell (0, 0), MOVE_DOWN) \<mapsto> 5] (cell (0, 0))
     (fixed_rng 0 0) = Inr (MOVE_DOWN, fixed_rng 0 0\<lparr>py_pos := 1\<rparr>)"
proof -
  have qs: "q win_env [(cell (0, 0), MOVE_UP) \<mapsto> 0, (cell (0, 0), MOVE_DOWN) \<mapsto> 5] (cell (0, 0))
              = [0, 0, 0, 5]"
    by (simp add: q_def table_key_def win_env_def four_actions_def cell_def estimate_def)
  have mi: "max_indices [0, 0, 0, 5] = [3]"
    by (simp add: max_indices_def upt_rec)
  show ?thesis
    by (simp add: predict_def qs mi random_choice_def fixed_rng_def)
      (simp add: win_env_def four_actions_def)
qed

theorem greedy_returns_maximizers_witness:
  "predict win_env [(cell (0, 0), MOVE_UP) \<mapsto> 0, (cell (0, 0), MOVE_DOWN) \<mapsto> 5] (cell (0, 0))
     (fixed_rng 0 0) = Inr (MOVE_DOWN, fixed_rng 0 0\<lparr>py_pos := 1\<rparr>) \<and>
   MOVE_DOWN \<in> set (actions win_env) \<and> MOVE_UP \<in> set (actions win_env) \<and>
   actions win_env \<noteq> [] \<and> hashable (cell (0, 0) :: unit state) \<and>
   estimate [(cell (0, 0), MOVE_UP) \<mapsto> 0, (cell (0, 0), MOVE_DOWN) \<mapsto> 5]
     (table_key (cell (0, 0) :: unit state), MOVE_DOWN) =
   Max (set (q win_env [(cell (0, 0), MOVE_UP) \<mapsto> 0, (cell (0, 0), MOVE_DOWN) \<mapsto> 5]
               (cell (0, 0)))) \<and>
   (\<exists>a g'. predict win_env [(cell (0, 0), MOVE_UP) \<mapsto> 3, (cell (0, 0), MOVE_DOWN) \<mapsto> 3]
              (cell (0, 0)) (fixed_rng 0 0) = Inr (a, g') \<and> (a = MOVE_UP \<or> a = MOVE_DOWN)) \<and>
   (\<exists>g1 g'. predict win_env [(cell (0, 0), MOVE_UP) \<mapsto> 3, (cell (0, 0), MOVE_DOWN) \<mapsto> 3]
              (cell (0, 0)) g1 = Inr (MOVE_UP, g')) \<and>
   (\<exists>g2 g'. predict win_env [(cell (0, 0), MOVE_UP) \<mapsto> 3, (cell (0, 0), MOVE_DOWN) \<mapsto> 3]
              (cell (0, 0)) g2 = Inr (MOVE_DOWN, g'))"
proof -
  have m: "MOVE_DOWN \<in> set (actions win_env)" "MOVE_UP \<in> set (actions win_env)"
    "actions win_env \<noteq> []"
    by (simp_all add: win_env_def four_actions_def)
  have h: "hashable (cell (0, 0) :: unit state)"
    by (simp add: cell_def)
  note inst = greedy_returns_maximizers [of win_env
      "[(cell (0, 0), MOVE_UP) \<mapsto> 0, (cell (0, 0), MOVE_DOWN) \<mapsto> 5]" "cell (0, 0)"
      "fixed_rng 0 0" MOVE_DOWN "fixed_rng 0 0\<lparr>py_pos := 1\<rparr>" "cell (0, 0)" win_env
      "fixed_rng 0 0" win_env "fixed_rng 0 0"]
  from inst predict_win_env_down m h show ?thesis
    by simp
qed

subsection \<open>Array states\<close>

text \<open>
  C10. For a state given as a numpy array, \<open>q\<close> looks the table up at the tuple of the
  array's flattened elements: its result, and the result of \<open>predict\<close>, are those for
  that tuple. A state given as a tuple or as another hashable object is the key as it is.
\<close>

theorem q_flattens_arrays:
  "q env Q (Ndarray arr) =
     map (\<lambda>action. estimate Q (Tuple (flatten arr), action)) (actions env) \<and>
   q env Q (Ndarray arr) = q env Q (Tuple (flatten arr)) \<and>
   predict env Q (Ndarray arr) g = predict env Q (Tuple (flatten arr)) g \<and>
   q env Q (Tuple t) = map (\<lambda>action. estimate Q (Tuple t, action)) (actions env) \<and>
   q env Q (Opaque k) = map (\<lambda>action. estimate Q (Opaque k, action)) (actions env)"
  by (simp add: predict_def q_def table_key_def)

theorem q_flattens_arrays_witness:
  "q win_env [(cell (0, 1), MOVE_UP) \<mapsto> 2]
     (Ndarray (Array [Array [Scalar 0], Array [Scalar 1]])) = [0, 0, 2, 0] \<and>
   q win_env [(cell (0, 1), MOVE_UP) \<mapsto> 2] (Tuple [0, 1]) = [0, 0, 2, 0]"
  using q_flattens_arrays [of win_env "[(cell (0, 1), MOVE_UP) \<mapsto> 2]"
      "Array [Array [Scalar 0], Array [Scalar 1]]" "fixed_rng 0 0" "[0, 1]" "()"]
  by (simp add: win_env_def four_actions_def cell_def estimate_def)

subsection \<open>The reward total is an offset of the episode loop\<close>

lemma td_step_offset:
  "td_step env discount exploration learning_rate state action (cumulative + k) Q w g =
     (case td_step env discount exploration learning_rate state action cumulative Q w g of
        Inl e \<Rightarrow> Inl e
      | Inr (status, next_state, next_action, cumulative', Q', w', g') \<Rightarrow>
          Inr (status, next_state, next_action, cumulative' + k, Q', w', g'))"
  by (simp add: td_step_def split: prod.splits sum.splits)

lemma episode_loop_cases:
  "episode_loop env discount exploration learning_rate state action cumulative Q w g =
     (case td_step env discount exploration learning_rate state action cumulative Q w g of
        Inl e \<Rightarrow> Some (Inl e)
      | Inr (status, next_state, next_action, cumulative', Q', w', g') \<Rightarrow>
          if status = WIN \<or> status = LOSE then Some (Inr (status, cumulative', Q', w', g'))
          else episode_loop env discount exploration learning_rate next_state next_action
                 cumulative' Q' w' g')"
  by (rule episode_loop.simps)

lemma episode_loop_offset:
  assumes "episode_loop env discount exploration learning_rate state action cumulative Q w g =
             Some y"
  shows "episode_loop env discount exploration learning_rate state action (cumulative + k) Q w g =
           Some (case y of
                   Inl e \<Rightarrow> Inl e
                 | Inr (status, cumulative', Q', w', g') \<Rightarrow>
                     Inr (status, cumulative' + k, Q', w', g'))"
proof -
  have "\<forall>k. episode_loop env discount exploration learning_rate state action (cumulative + k) Q w g =
           Some (case y of
                   Inl e \<Rightarrow> Inl e
                 | Inr (status, cumulative', Q', w', g') \<Rightarrow>
                     Inr (status, cumulative' + k, Q', w', g'))"
  proof (rule episode_loop.raw_induct
      [where P = "\<lambda>env discount exploration learning_rate state action cumulative Q w g y.
         \<forall>k. episode_loop env discount exploration learning_rate state action (cumulative + k) Q w g =
           Some (case y of
                   Inl e \<Rightarrow> Inl e
                 | Inr (status, cumulative', Q', w', g') \<Rightarrow>
                     Inr (status, cumulative' + k, Q', w', g'))", OF _ assms])
    fix loop :: "('a, 'b, 'c) environment \<Rightarrow> real \<Rightarrow> real \<Rightarrow> real \<Rightarrow> 'a state \<Rightarrow> 'b \<Rightarrow> real
        \<Rightarrow> ('a, 'b) table \<Rightarrow> 'c \<Rightarrow> rng
        \<Rightarrow> (error + (Status \<times> real \<times> ('a, 'b) table \<times> 'c \<times> rng)) option"
    fix env discount exploration learning_rate state action cumulative Q w g y
    assume IH: "\<And>env discount exploration learning_rate state action cumulative Q w g y.
        loop env discount exploration learning_rate state action cumulative Q w g = Some y \<Longrightarrow>
        \<forall>k. episode_loop env discount exploration learning_rate state action (cumulative + k) Q w g =
           Some (case y of
                   Inl e \<Rightarrow> Inl e
                 | Inr (status, cumulative', Q', w', g') \<Rightarrow>
                     Inr (status, cumulative' + k, Q', w', g'))"
    assume body: "(case td_step env discount exploration learning_rate state action cumulative Q w g of
        Inl e \<Rightarrow> Some (Inl e)
      | Inr (status, next_state, next_action, cumulative', Q', w', g') \<Rightarrow>
          if status = WIN \<or> status = LOSE then Some (Inr (status, cumulative', Q', w', g'))
          else loop env discount exploration learning_rate next_state next_action
                 cumulative' Q' w' g') = Some y"
    show "\<forall>k. episode_loop env discount exploration learning_rate state action (cumulative + k) Q w g =
           Some (case y of
                   Inl e \<Rightarrow> Inl e
                 | Inr (status, cumulative', Q', w', g') \<Rightarrow>
                     Inr (status, cumulative' + k, Q', w', g'))"
    proof (cases "td_step env discount exploration learning_rate state action cumulative Q w g")
      case (Inl e)
      with body have "y = Inl e" by simp
      with Inl show ?thesis
        by (subst episode_loop_cases) (simp add: td_step_offset)
    next
      case (Inr r)
      obtain status next_state next_action cumulative' Q' w' g' where
        r: "r = (status, next_state, next_action, cumulative', Q', w', g')"
        by (metis prod.exhaust)
      show ?thesis
      proof (cases "status = WIN \<or> status = LOSE")
        case True
        with body Inr r have "y = Inr (status, cumulative', Q', w', g')" by simp
        with Inr r True show ?thesis
          by (subst episode_loop_cases) (simp add: td_step_offset)
      next
        case False
        with body Inr r
        have "loop env discount exploration learning_rate next_state next_action
                cumulative' Q' w' g' = Some y"
          by simp
        from IH [OF this] Inr r False show ?thesis
          by (subst episode_loop_cases) (simp add: td_step_offset)
      qed
    qed
  qed
  then show ?thesis by blast
qed

subsection \<open>The reward history\<close>

lemma next_start_2_0: "next_start (2, 0) = Inr (3, 0)"
  by (simp add: next_start_def advance_eq skip_occupied.simps [of "(3, 0)"] maze_at_def maze_def)

lemma run_episode_Inr:
  assumes "run_episode env discount learning_rate episodes episode st = Some (Inr st')"
  shows "\<exists>state w0 action g0 Q0 status c' Q' w' g' x' y'.
           reset env (cur_x st, cur_y st) (world st) = (state, w0) \<and>
           choose_action env (qtable st) (exploration_rate st) state (gen st) = Inr (action, g0) \<and>
           ensure state action (qtable st) = Inr Q0 \<and>
           episode_loop env discount (exploration_rate st) learning_rate state action
             (cumulative_reward st) Q0 w0 g0 = Some (Inr (status, c', Q', w', g')) \<and>
           next_start (cur_x st, cur_y st) = Inr (x', y') \<and>
           st' = st\<lparr>qtable := Q', world := w', gen := g',
                     cumulative_reward := c',
                     cumulative_reward_history := cumulative_reward_history st @ [c'],
                     exploration_rate := decay (exploration_rate st),
                     logs := logs st @
                       [EpisodeInfo episode episodes status
                          (decay (exploration_rate st)) (cur_x st) (cur_y st)],
                     cur_x := x', cur_y := y', episode_var := Some episode\<rparr>"
  using assms
  by (auto simp add: run_episode_def split: prod.splits sum.splits option.splits)

lemma run_episode_from_zero:
  assumes "run_episode env discount learning_rate episodes episode st = Some (Inr st')"
  shows "run_episode env discount learning_rate episodes episode (st\<lparr>cumulative_reward := 0\<rparr>) =
           Some (Inr (st'\<lparr>cumulative_reward := cumulative_reward st' - cumulative_reward st,
                          cumulative_reward_history := cumulative_reward_history st @
                            [cumulative_reward st' - cumulative_reward st]\<rparr>))"
proof -
  from run_episode_Inr [OF assms] obtain state w0 action g0 Q0 status c' Q' w' g' x' y' where
    r: "reset env (cur_x st, cur_y st) (world st) = (state, w0)" and
    c: "choose_action env (qtable st) (exploration_rate st) state (gen st) = Inr (action, g0)" and
    e: "ensure state action (qtable st) = Inr Q0" and
    l: "episode_loop env discount (exploration_rate st) learning_rate state action
             (cumulative_reward st) Q0 w0 g0 = Some (Inr (status, c', Q', w', g'))" and
    n: "next_start (cur_x st, cur_y st) = Inr (x', y')" and
    s: "st' = st\<lparr>qtable := Q', world := w', gen := g',
                     cumulative_reward := c',
                     cumulative_reward_history := cumulative_reward_history st @ [c'],
                     exploration_rate := decay (exploration_rate st),
                     logs := logs st @
                       [EpisodeInfo episode episodes status
                          (decay (exploration_rate st)) (cur_x st) (cur_y st)],
                     cur_x := x', cur_y := y', episode_var := Some episode\<rparr>"
    by blast
  from episode_loop_offset [OF l, of "- cumulative_reward st"]
  have "episode_loop env discount (exploration_rate st) learning_rate state action
             0 Q0 w0 g0 = Some (Inr (status, c' - cumulative_reward st, Q', w', g'))"
    by simp
  with r c e n s show ?thesis
    by (simp add: run_episode_def)
qed





lemmas train_eval =
  train_def init_locals_def run_episode_def choose_action_def np_random_def
  random_choice_def fixed_rng_def win_env_def four_actions_def ensure_def
  episode_loop.simps td_step_def update_def lookup_def cell_def next_start_origin
  next_start_2_0 upto_rec1 decay_def min_exploration_rate_def decay_rate_def


lemma first_episode:
  "run_episode win_env (9/10) (1/2) 2 1 (init_locals 1 Map.empty () (fixed_rng 0 0)) =
     Some (Inr after_first)"
  by (simp add: train_eval after_first_def)




subsection \<open>Episodes that end\<close>

lemma td_step_next_present:
  assumes "td_step env discount exploration learning_rate state action cumulative Q w g =
             Inr (status, next_state, next_action, cumulative', Q', w', g')"
  shows "Q' (next_state, next_action) \<noteq> None"
  using td_step_table [OF assms] by (auto split: if_splits)

lemma episode_loop_total:
  fixes m :: "'w \<Rightarrow> nat" and env :: "('k, 'a, 'w) environment"
  assumes ne: "actions env \<noteq> []"
    and hs: "\<And>a w. hashable (fst (fst (aplica env a w)))"
    and dec: "\<And>a w. snd (snd (fst (aplica env a w))) = IN_PROGRESS \<Longrightarrow>
                m (snd (aplica env a w)) < m w"
  shows "Q (state, action) \<noteq> None \<Longrightarrow>
         \<exists>r. episode_loop env discount exploration learning_rate state action cumulative Q w g =
               Some (Inr r)"
proof (induction "m w" arbitrary: w state action cumulative Q g rule: less_induct)
  case less
  from td_step_total [where Q = Q and state = state and action = action,
      OF ne less.prems hs [of action w]]
  obtain r where "td_step env discount exploration learning_rate state action cumulative Q w g = Inr r"
    by blast
  then obtain status next_state next_action cumulative' Q' w' g' where
    td: "td_step env discount exploration learning_rate state action cumulative Q w g =
           Inr (status, next_state, next_action, cumulative', Q', w', g')"
    by (metis prod.exhaust)
  show ?case
  proof (cases "status = IN_PROGRESS")
    case True
    from td_step_Inr [OF td] obtain reward where
      ap: "aplica env action w = ((next_state, reward, status), w')"
      by blast
    with dec [of action w] True have "m w' < m w" by simp
    from less.hyps [where Q = Q' and state = next_state and action = next_action,
        OF this td_step_next_present [OF td]]
    show ?thesis
      by (simp add: episode_loop_continue [OF td True])
  next
    case False
    then have "status = WIN \<or> status = LOSE" by (cases status) simp_all
    from episode_loop_terminal [OF td this] show ?thesis by blast
  qed
qed

lemma run_episode_total:
  fixes m :: "'w \<Rightarrow> nat" and env :: "('k, 'a, 'w) environment"
  assumes ne: "actions env \<noteq> []"
    and hr: "\<And>p w. hashable (fst (reset env p w))"
    and hs: "\<And>a w. hashable (fst (fst (aplica env a w)))"
    and dec: "\<And>a w. snd (snd (fst (aplica env a w))) = IN_PROGRESS \<Longrightarrow>
                m (snd (aplica env a w)) < m w"
    and grid: "cur_x st < 8" "cur_y st < 8"
  shows "\<exists>st'. run_episode env discount learning_rate episodes episode st = Some (Inr st') \<and>
           cur_x st' < 8 \<and> cur_y st' < 8"
proof -
  obtain state w0 where r: "reset env (cur_x st, cur_y st) (world st) = (state, w0)"
    by (cases "reset env (cur_x st, cur_y st) (world st)")
  with hr [of "(cur_x st, cur_y st)" "world st"] have h: "hashable state" by simp
  from choose_action_total [OF ne] obtain action g0 where
    c: "choose_action env (qtable st) (exploration_rate st) state (gen st) = Inr (action, g0)"
    by blast
  from h obtain Q0 where e: "ensure state action (qtable st) = Inr Q0"
    by (cases "(state, action) \<in> dom (qtable st)") (simp_all add: ensure_def)
  from ensure_present [OF e] have "Q0 (state, action) \<noteq> None" by simp
  from episode_loop_total [where Q = Q0 and state = state and action = action and m = m,
      OF ne hs dec this]
  obtain res where
    "episode_loop env discount (exploration_rate st) learning_rate state action
       (cumulative_reward st) Q0 w0 g0 = Some (Inr res)"
    by blast
  then obtain status c' Q' w' g' where
    l: "episode_loop env discount (exploration_rate st) learning_rate state action
       (cumulative_reward st) Q0 w0 g0 = Some (Inr (status, c', Q', w', g'))"
    by (metis prod.exhaust)
  from next_start_in_grid [OF grid] obtain x' y' where
    n: "next_start (cur_x st, cur_y st) = Inr (x', y')" "x' < 8" "y' < 8"
    by blast
  from r c e l n show ?thesis
    by (simp add: run_episode_def)
qed

lemma train_loop_total:
  fixes m :: "'w \<Rightarrow> nat" and env :: "('k, 'a, 'w) environment"
  assumes ne: "actions env \<noteq> []"
    and hr: "\<And>p w. hashable (fst (reset env p w))"
    and hs: "\<And>a w. hashable (fst (fst (aplica env a w)))"
    and dec: "\<And>a w. snd (snd (fst (aplica env a w))) = IN_PROGRESS \<Longrightarrow>
                m (snd (aplica env a w)) < m w"
  shows "cur_x st < 8 \<Longrightarrow> cur_y st < 8 \<Longrightarrow>
         \<exists>st'. train_loop env discount learning_rate episodes eps st = Some (Inr st')"
proof (induction eps arbitrary: st)
  case Nil
  then show ?case by simp
next
  case (Cons episode rest)
  from run_episode_total [where m = m and st = st, OF ne hr hs dec Cons.prems]
  obtain st1 where
    r: "run_episode env discount learning_rate episodes episode st = Some (Inr st1)"
      "cur_x st1 < 8" "cur_y st1 < 8"
    by blast
  from Cons.IH [OF r(2) r(3)] r(1) show ?case by simp
qed

subsection \<open>What a training run returns\<close>

lemma logged_rates_append:
  "logged_rates (xs @ ys) = logged_rates xs @ logged_rates ys"
  by (induction xs rule: logged_rates.induct) simp_all

lemma run_episode_fields:
  assumes "run_episode env discount learning_rate episodes episode st = Some (Inr st')"
  shows "win_history st' = win_history st"
    and "cumulative_reward_history st' = cumulative_reward_history st @ [cumulative_reward st']"
    and "exploration_rate st' = decay (exploration_rate st)"
    and "logged_rates (logs st') = logged_rates (logs st) @ [decay (exploration_rate st)]"
    and "episode_var st' = Some episode"
  using run_episode_Inr [OF assms] by (auto simp add: logged_rates_append)

lemma train_loop_Inr:
  "train_loop env discount learning_rate episodes eps st = Some (Inr st') \<Longrightarrow>
     win_history st' = win_history st \<and>
     length (cumulative_reward_history st') = length (cumulative_reward_history st) + length eps \<and>
     episode_var st' = (if eps = [] then episode_var st else Some (last eps)) \<and>
     exploration_rate st' = (decay ^^ length eps) (exploration_rate st) \<and>
     logged_rates (logs st') =
       logged_rates (logs st) @ map (\<lambda>k. (decay ^^ Suc k) (exploration_rate st)) [0..<length eps]"
proof (induction eps arbitrary: st)
  case Nil
  then show ?case by simp
next
  case (Cons episode rest)
  from Cons.prems obtain st1 where
    r: "run_episode env discount learning_rate episodes episode st = Some (Inr st1)" and
    t: "train_loop env discount learning_rate episodes rest st1 = Some (Inr st')"
    by (auto split: option.splits sum.splits)
  note f = run_episode_fields [OF r]
  note ih = Cons.IH [OF t]
  have w: "win_history st' = win_history st"
    using ih f by simp
  have l: "length (cumulative_reward_history st') =
             length (cumulative_reward_history st) + length (episode # rest)"
    using ih f by simp
  have e: "episode_var st' = Some (last (episode # rest))"
    using ih f by simp
  have x: "exploration_rate st' = (decay ^^ length (episode # rest)) (exploration_rate st)"
    using ih f by (simp add: funpow_swap1)
  have "map (\<lambda>k. (decay ^^ Suc k) (exploration_rate st)) [0..<length (episode # rest)] =
          decay (exploration_rate st) #
          map (\<lambda>k. (decay ^^ Suc k) (decay (exploration_rate st))) [0..<length rest]"
    by (simp add: map_upt_Suc funpow_swap1 del: upt_Suc)
  then have g: "logged_rates (logs st') =
       logged_rates (logs st) @
         map (\<lambda>k. (decay ^^ Suc k) (exploration_rate st)) [0..<length (episode # rest)]"
    using ih f by simp
  from w l e x g show ?case by simp
qed

lemma length_upto_1: "length [1..n] = nat n"
  by simp

lemma train_Inr:
  assumes "train env discount exploration learning_rate episodes stop Q w g =
             Some (Inr ((history, wins, count), st))"
  shows "1 \<le> episodes" and "wins = []" and "length history = nat episodes"
    and "count = episodes"
    and "exploration_rate st = (decay ^^ nat episodes) exploration"
    and "logged_rates (logs st) = map (\<lambda>k. (decay ^^ Suc k) exploration) [0..<nat episodes]"
proof -
  from assms obtain st1 where
    t: "train_loop env discount learning_rate episodes [1..episodes]
          (init_locals exploration Q w g) = Some (Inr st1)" and
    v: "episode_var st1 = Some count" and
    h: "history = cumulative_reward_history st1" "wins = win_history st1" and
    s: "st = st1\<lparr>logs := logs st1 @ [EpisodesDone count]\<rparr>"
    by (auto simp add: train_def split: option.splits sum.splits)
  note i = train_loop_Inr [OF t]
  from i v have ne: "[1..episodes] \<noteq> []"
    by (auto simp add: init_locals_def split: if_splits)
  then show "1 \<le> episodes" by simp
  then have "last [1..episodes] = episodes"
    by (simp add: upto_rec2)
  with i v ne show "count = episodes" by simp
  from i h show "wins = []" by (simp add: init_locals_def)
  from i h show "length history = nat episodes" by (simp add: init_locals_def)
  from i s show "exploration_rate st = (decay ^^ nat episodes) exploration"
    by (simp add: init_locals_def)
  from i s show "logged_rates (logs st) = map (\<lambda>k. (decay ^^ Suc k) exploration) [0..<nat episodes]"
    by (simp add: init_locals_def logged_rates_append)
qed

lemma train_total:
  fixes m :: "'w \<Rightarrow> nat" and env :: "('k, 'a, 'w) environment"
  assumes ne: "actions env \<noteq> []"
    and hr: "\<And>p w. hashable (fst (reset env p w))"
    and hs: "\<And>a w. hashable (fst (fst (aplica env a w)))"
    and dec: "\<And>a w. snd (snd (fst (aplica env a w))) = IN_PROGRESS \<Longrightarrow>
                m (snd (aplica env a w)) < m w"
    and ep: "1 \<le> episodes"
  shows "\<exists>history st. train env discount exploration learning_rate episodes stop Q w g =
           Some (Inr ((history, [], episodes), st))"
proof -
  have "\<exists>st'. train_loop env discount learning_rate episodes [1..episodes]
          (init_locals exploration Q w g) = Some (Inr st')"
    by (rule train_loop_total [where m = m, OF ne hr hs dec]) (simp_all add: init_locals_def)
  then obtain st1 where
    t: "train_loop env discount learning_rate episodes [1..episodes]
          (init_locals exploration Q w g) = Some (Inr st1)"
    by blast
  from ep have "[1..episodes] \<noteq> []" "last [1..episodes] = episodes"
    by (simp_all add: upto_rec2)
  with train_loop_Inr [OF t] have "episode_var st1 = Some episodes" "win_history st1 = []"
    by (simp_all add: init_locals_def)
  with t show ?thesis
    by (simp add: train_def)
qed

subsection \<open>Results of a training run\<close>

lemma win_env_ends:
  "actions win_env \<noteq> []"
  "hashable (fst (reset win_env p w))"
  "hashable (fst (fst (aplica win_env a w)))"
  "snd (snd (fst (aplica win_env a w))) = IN_PROGRESS \<Longrightarrow> (0::nat) < 0"
  by (simp_all add: win_env_def four_actions_def cell_def)

lemmas predict_eval =
  predict_def q_def table_key_def estimate_def max_indices_def upt_rec

text \<open>
  C4. \<open>win_history\<close> is created empty with the other reporting variables and returned
  as the second result, but no statement appends to it: an episode leaves it as it
  found it. A run of one episode that ends in WIN returns the reward history [1], the
  count 1 and an empty second result; the terminal status only reaches the log line.
\<close>

theorem win_history_never_filled:
  "win_history (init_locals exploration Q w g) = [] \<and>
   map_option (map_sum id win_history)
     (run_episode env discount learning_rate episodes episode st) =
   map_option (map_sum id (\<lambda>st'. win_history st))
     (run_episode env discount learning_rate episodes episode st) \<and>
   map_option (map_sum id fst)
     (train win_env (9/10) 1 (1/2) 1 False Map.empty () (fixed_rng 0 0)) =
     Some (Inr ([1], [], 1)) \<and>
   map_option (map_sum id (logs \<circ> snd))
     (train win_env (9/10) 1 (1/2) 1 False Map.empty () (fixed_rng 0 0)) =
     Some (Inr [EpisodeInfo 1 1 WIN (399/400) 0 0, EpisodesDone 1])"
proof (intro conjI)
  show "win_history (init_locals exploration Q w g) = []"
    by (simp add: init_locals_def)
  show "map_option (map_sum id win_history)
     (run_episode env discount learning_rate episodes episode st) =
   map_option (map_sum id (\<lambda>st'. win_history st))
     (run_episode env discount learning_rate episodes episode st)"
  proof (cases "run_episode env discount learning_rate episodes episode st")
    case None
    then show ?thesis by simp
  next
    case (Some r)
    then show ?thesis
      by (cases r) (simp_all add: run_episode_fields(1))
  qed
qed (simp_all add: train_eval)

text \<open>
  C6. With \<open>episodes = 0\<close> the loop body never runs, \<open>episode\<close> is never bound, and the
  read of \<open>episode\<close> after the loop (line 337) raises UnboundLocalError: \<open>train\<close> returns
  nothing.
\<close>

theorem train_zero_episodes_raises:
  "train env discount exploration learning_rate 0 stop Q w g = Some (Inl UnboundLocalError)"
  by (simp add: train_def init_locals_def)

text \<open>
  C7. \<open>actua\<close> returns the index that \<open>random.choice\<close> picked among the maximizing
  indices, a number, and not the action at that index: with DOWN the only maximizer
  and fourth in the action list, \<open>actua\<close> returns 3 where \<open>predict\<close> returns DOWN.
\<close>

theorem actua_returns_index:
  "actua win_env [(cell (0, 0), MOVE_UP) \<mapsto> 0, (cell (0, 0), MOVE_DOWN) \<mapsto> 5]
     [''POS'' \<mapsto> cell (0, 0)] (fixed_rng 0 0) =
     Inr (3, fixed_rng 0 0\<lparr>py_pos := 1\<rparr>) \<and>
   predict win_env [(cell (0, 0), MOVE_UP) \<mapsto> 0, (cell (0, 0), MOVE_DOWN) \<mapsto> 5]
     (cell (0, 0)) (fixed_rng 0 0) =
     Inr (MOVE_DOWN, fixed_rng 0 0\<lparr>py_pos := 1\<rparr>) \<and>
   actions win_env ! 3 = MOVE_DOWN"
  by (simp add: actua_def predict_eval random_choice_def fixed_rng_def win_env_def
      four_actions_def cell_def)

text \<open>
  C8. \<open>train\<close> never reads \<open>stop_at_convergence\<close>: the run with the flag set is the run
  without it. In the environment where every move wins, six episodes requested with
  the flag set are six episodes run.
\<close>

theorem stop_at_convergence_ignored:
  "train env discount exploration learning_rate episodes True Q w g =
     train env discount exploration learning_rate episodes False Q w g \<and>
   (\<exists>history st. train win_env (9/10) 1 (1/2) 6 True Map.empty () (fixed_rng 0 0) =
      Some (Inr ((history, [], 6), st)))"
proof
  show "train env discount exploration learning_rate episodes True Q w g =
     train env discount exploration learning_rate episodes False Q w g"
    by (simp add: train_def)
  show "\<exists>history st. train win_env (9/10) 1 (1/2) 6 True Map.empty () (fixed_rng 0 0) =
      Some (Inr ((history, [], 6), st))"
    by (rule train_total [where m = "\<lambda>w. 0", OF win_env_ends]) simp_all
qed



lemma countdown_run:
  "map_option (map_sum id fst)
     (train countdown_env (9/10) 1 (1/2) 1 False Map.empty 0 (fixed_rng 0 0)) =
     Some (Inr ([8], [], 1))"
  by (simp add: train_def init_locals_def run_episode_def choose_action_def np_random_def
      random_choice_def fixed_rng_def countdown_env_def four_actions_def ensure_def
      episode_loop.simps td_step_def update_def lookup_def cell_def next_start_origin)




subsection \<open>The exploration rate\<close>

lemma decay_floor: "1/100 \<le> decay e"
  by (simp add: decay_def min_exploration_rate_def)

lemma decay_below:
  assumes "1/100 \<le> e"
  shows "decay e \<le> e"
proof -
  from assms have "0 \<le> e" by simp
  then have "e * (9975/10000) \<le> e * 1"
    by (intro mult_left_mono) simp_all
  with assms show ?thesis
    by (simp add: decay_def min_exploration_rate_def decay_rate_def)
qed

lemma decay_iterates:
  "1/100 \<le> (decay ^^ Suc k) e"
  "(decay ^^ Suc (Suc k)) e \<le> (decay ^^ Suc k) e"
proof -
  show a: "1/100 \<le> (decay ^^ Suc k) e"
    using decay_floor [of "(decay ^^ k) e"] by simp
  have "decay ((decay ^^ Suc k) e) \<le> (decay ^^ Suc k) e"
    using a by (rule decay_below)
  then show "(decay ^^ Suc (Suc k)) e \<le> (decay ^^ Suc k) e"
    by simp
qed

lemma decay_iterates_from:
  assumes "1/100 \<le> e"
  shows "1/100 \<le> (decay ^^ k) e" and "(decay ^^ Suc k) e \<le> (decay ^^ k) e"
proof -
  show a: "1/100 \<le> (decay ^^ k) e"
  proof (cases k)
    case 0
    with assms show ?thesis by simp
  next
    case (Suc j)
    with decay_floor [of "(decay ^^ j) e"] show ?thesis by simp
  qed
  from decay_below [OF a] show "(decay ^^ Suc k) e \<le> (decay ^^ k) e"
    by simp
qed

text \<open>
  C5. After every completed episode the exploration rate is set to
  max(0.01, rate * 0.9975). The rate logged after episode k + 1 of a run is that map
  applied k + 1 times to the initial rate; each of these values is at least 0.01 and
  none is greater than the one before it, whatever the initial rate. The sequence that
  starts with the initial rate itself is non-increasing and stays at or above 0.01 when
  the initial rate is at least 0.01.
\<close>

theorem exploration_rate_schedule:
  "decay e = max (1/100) (e * (9975/10000)) \<and>
   (run_episode env discount learning_rate episodes episode st = Some (Inr st') \<longrightarrow>
      exploration_rate st' = decay (exploration_rate st)) \<and>
   (train env discount e learning_rate episodes stop Q w g =
      Some (Inr ((history, wins, count), final)) \<longrightarrow>
      logged_rates (logs final) = map (\<lambda>k. (decay ^^ Suc k) e) [0..<nat episodes] \<and>
      exploration_rate final = (decay ^^ nat episodes) e) \<and>
   1/100 \<le> (decay ^^ Suc k) e \<and>
   (decay ^^ Suc (Suc k)) e \<le> (decay ^^ Suc k) e \<and>
   (1/100 \<le> e \<longrightarrow> 1/100 \<le> (decay ^^ k) e \<and> (decay ^^ Suc k) e \<le> (decay ^^ k) e)"
proof (intro conjI impI)
  show "decay e = max (1/100) (e * (9975/10000))"
    by (simp add: decay_def min_exploration_rate_def decay_rate_def)
next
  assume "run_episode env discount learning_rate episodes episode st = Some (Inr st')"
  then show "exploration_rate st' = decay (exploration_rate st)"
    by (rule run_episode_fields)
next
  assume t: "train env discount e learning_rate episodes stop Q w g =
      Some (Inr ((history, wins, count), final))"
  from train_Inr(6) [OF t]
  show "logged_rates (logs final) = map (\<lambda>k. (decay ^^ Suc k) e) [0..<nat episodes]" .
  from train_Inr(5) [OF t]
  show "exploration_rate final = (decay ^^ nat episodes) e" .
next
  show "1/100 \<le> (decay ^^ Suc k) e" by (rule decay_iterates)
  show "(decay ^^ Suc (Suc k)) e \<le> (decay ^^ Suc k) e" by (rule decay_iterates)
next
  assume "1/100 \<le> e"
  then show "1/100 \<le> (decay ^^ k) e" and "(decay ^^ Suc k) e \<le> (decay ^^ k) e"
    by (rule decay_iterates_from)+
qed

theorem exploration_rate_schedule_witness:
  "\<exists>history final.
     train win_env (9/10) 1 (1/2) 2 False Map.empty () (fixed_rng 0 0) =
       Some (Inr ((history, [], 2), final)) \<and>
     logged_rates (logs final) = [decay 1, decay (decay 1)] \<and>
     exploration_rate final = decay (decay 1) \<and>
     (1/100::real) \<le> 1 \<and> decay 1 \<le> 1 \<and> 1/100 \<le> decay 1 \<and> decay (decay 1) \<le> decay 1"
proof -
  from train_total [where m = "\<lambda>w. 0" and env = win_env and episodes = 2,
      OF win_env_ends]
  obtain history final where
    t: "train win_env (9/10) 1 (1/2) 2 False Map.empty () (fixed_rng 0 0) =
          Some (Inr ((history, [], 2), final))"
    by fastforce
  have n: "[0..<nat 2] = [0, 1]"
    by (simp add: upt_rec)
  from exploration_rate_schedule [where e = 1 and env = win_env and discount = "9/10"
      and learning_rate = "1/2" and episodes = 2 and stop = False and Q = Map.empty
      and w = "()" and g = "fixed_rng 0 0" and history = history and wins = "[]"
      and count = 2 and final = final and k = 0] t n
  have "logged_rates (logs final) = [decay 1, decay (decay 1)] \<and>
     exploration_rate final = decay (decay 1) \<and>
     (1/100::real) \<le> 1 \<and> decay 1 \<le> 1 \<and> 1/100 \<le> decay 1 \<and> decay (decay 1) \<le> decay 1"
    by (simp add: numeral_2_eq_2)
  with t show ?thesis by blast
qed

theorem exploration_rate_counterexample:
  "exploration_rate (init_locals 0 Map.empty () (fixed_rng 0 0) :: (unit, Action, unit) locals) = 0 \<and>
   map_option (map_sum id (logged_rates \<circ> logs \<circ> snd))
     (train win_env (9/10) 0 (1/2) 1 False Map.empty () (fixed_rng 0 0)) =
     Some (Inr [1/100]) \<and>
   (0::real) < 1/100"
  by (simp add: train_eval predict_eval)

end
